theory Spec2Isabelle
  imports Complex_Main "HOL-Library.Multiset"
begin

section \<open>Errors of the Python runtime that the pipeline can meet\<close>

datatype py_error = KeyError | IndexError | PdfReadError

section \<open>Knowledge graph: \<open>extract_triples\<close> and \<open>build_graph\<close>\<close>

text \<open>
  A triple is the Python tuple \<open>(subject, predicate, object)\<close>. The NER pipeline
  \<open>nlp\<close> is a pretrained model outside the repository; the code only reads
  \<open>[ent.text for ent in doc.ents]\<close>, so it is taken as a parameter that maps a text to
  the surface strings of its entities in document order.
\<close>

type_synonym triple = "string \<times> string \<times> string"

text \<open>
  The inner loop of \<open>extract_triples\<close>: \<open>for i in range(len(entities) - 1)\<close> appends
  \<open>(entities[i], "related_to", entities[i + 1])\<close>. For an empty list Python's
  \<open>range(-1)\<close> is empty, as is \<open>[0..<0 - 1]\<close> with truncating subtraction on \<open>nat\<close>.
  Both indices stay below \<open>length entities\<close>, so no access is out of range.
\<close>

definition text_triples :: "(string \<Rightarrow> string list) \<Rightarrow> string \<Rightarrow> triple list" where
  "text_triples nlp text =
     (let entities = nlp text
      in map (\<lambda>i. (entities ! i, ''related_to'', entities ! (i + 1)))
           [0..<length entities - 1])"

fun extract_triples_from :: "(string \<Rightarrow> string list) \<Rightarrow> triple list \<Rightarrow> string list \<Rightarrow> triple list" where
  "extract_triples_from nlp triples [] = triples"
| "extract_triples_from nlp triples (text # texts) =
     extract_triples_from nlp (triples @ text_triples nlp text) texts"

definition extract_triples :: "(string \<Rightarrow> string list) \<Rightarrow> string list \<Rightarrow> triple list" where
  "extract_triples nlp texts = extract_triples_from nlp [] texts"

text \<open>
  Modelled from the spec: \<open>nx.Graph\<close>, the undirected graph class of the networkx
  library, is not part of the repository. The graph is an undirected graph whose nodes
  are entity strings; adding an edge adds its endpoints as nodes when they are missing,
  and a duplicate edge overwrites instead of accumulating. The model keeps the class's
  two dictionaries, \<open>_node\<close> (node \<open>\<mapsto>\<close> attribute dict) and \<open>_adj\<close> (node \<open>\<mapsto>\<close> neighbour
  \<open>\<mapsto>\<close> edge attribute dict), as maps, so that two graphs are equal when their dicts
  are equal as Python compares dicts (by content, not by insertion order). An edge from
  a node to itself is an entry of that node in its own neighbour dict.
\<close>

type_synonym attrs = "string \<rightharpoonup> string"

record graph =
  nx_node :: "string \<rightharpoonup> attrs"
  nx_adj :: "string \<rightharpoonup> (string \<rightharpoonup> attrs)"

definition Graph :: graph where
  "Graph = \<lparr>nx_node = Map.empty, nx_adj = Map.empty\<rparr>"

text \<open>\<open>if u not in self._node: self._adj[u] = {}; self._node[u] = {}\<close>\<close>

definition add_missing_node :: "string \<Rightarrow> graph \<Rightarrow> graph" where
  "add_missing_node u G =
     (if nx_node G u = None
      then G\<lparr>nx_adj := (nx_adj G)(u \<mapsto> Map.empty), nx_node := (nx_node G)(u \<mapsto> Map.empty)\<rparr>
      else G)"

text \<open>
  \<open>add_edge(u, v, **attr)\<close>: both endpoints are added when missing; then
  \<open>datadict = self._adj[u].get(v, {}); datadict.update(attr);
  self._adj[u][v] = datadict; self._adj[v][u] = datadict\<close>. A subscript on a missing
  key is Python's \<open>KeyError\<close>.
\<close>

definition add_edge :: "string \<Rightarrow> string \<Rightarrow> attrs \<Rightarrow> graph \<Rightarrow> py_error + graph" where
  "add_edge u v attr G =
     (let G2 = add_missing_node v (add_missing_node u G)
      in case nx_adj G2 u of
           None \<Rightarrow> Inl KeyError
         | Some au \<Rightarrow>
             (let datadict = (case au v of None \<Rightarrow> Map.empty | Some d \<Rightarrow> d) ++ attr;
                  adj1 = (nx_adj G2)(u \<mapsto> au(v \<mapsto> datadict))
              in case adj1 v of
                   None \<Rightarrow> Inl KeyError
                 | Some av \<Rightarrow> Inr (G2\<lparr>nx_adj := adj1(v \<mapsto> av(u \<mapsto> datadict))\<rparr>)))"

text \<open>The keyword argument \<open>label=p\<close>: the dict \<open>{"label": p}\<close>.\<close>

definition label_attr :: "string \<Rightarrow> attrs" where
  "label_attr p = [''label'' \<mapsto> p]"

text \<open>\<open>for s, p, o in triples: G.add_edge(s, o, label=p)\<close>\<close>

fun build_graph_from :: "graph \<Rightarrow> triple list \<Rightarrow> py_error + graph" where
  "build_graph_from G [] = Inr G"
| "build_graph_from G ((s, p, ob) # triples) =
     (case add_edge s ob (label_attr p) G of
        Inl e \<Rightarrow> Inl e
      | Inr G' \<Rightarrow> build_graph_from G' triples)"

definition build_graph :: "triple list \<Rightarrow> py_error + graph" where
  "build_graph triples = build_graph_from Graph triples"

text \<open>
  The read interface of the graph: \<open>n in G\<close>, \<open>G.has_edge(u, v)\<close> (False when \<open>u\<close> is
  no node) and \<open>G.get_edge_data(u, v)\<close> (None when there is no such edge).
\<close>

definition has_node :: "graph \<Rightarrow> string \<Rightarrow> bool" where
  "has_node G n = (nx_node G n \<noteq> None)"

definition get_edge_data :: "graph \<Rightarrow> string \<Rightarrow> string \<Rightarrow> attrs option" where
  "get_edge_data G u v = (case nx_adj G u of None \<Rightarrow> None | Some au \<Rightarrow> au v)"

definition has_edge :: "graph \<Rightarrow> string \<Rightarrow> string \<Rightarrow> bool" where
  "has_edge G u v = (get_edge_data G u v \<noteq> None)"

subsection \<open>The graph of a triple list in closed form\<close>

text \<open>
  Not part of the program: the graph a triple list denotes, written without the loop.
  Its nodes are the endpoints of the triples; the attribute dict of the edge between
  \<open>u\<close> and \<open>v\<close> holds the label of the last triple that joins them, in either order.
  That \<open>build_graph\<close> computes this graph is proved below (\<open>build_graph_closed_form\<close>).
\<close>

definition endpoints :: "triple list \<Rightarrow> string set" where
  "endpoints triples = (\<Union>(s, p, ob) \<in> set triples. {s, ob})"

definition joins :: "string \<Rightarrow> string \<Rightarrow> triple \<Rightarrow> bool" where
  "joins u v t = (case t of (s, p, ob) \<Rightarrow> (s = u \<and> ob = v) \<or> (s = v \<and> ob = u))"

definition edge_attrs :: "triple list \<Rightarrow> string \<Rightarrow> string \<Rightarrow> attrs option" where
  "edge_attrs triples u v =
     map_option (\<lambda>t. label_attr (fst (snd t))) (List.find (joins u v) (rev triples))"

definition graph_of :: "triple list \<Rightarrow> graph" where
  "graph_of triples =
     \<lparr>nx_node = (\<lambda>u. if u \<in> endpoints triples then Some Map.empty else None),
      nx_adj = (\<lambda>u. if u \<in> endpoints triples then Some (edge_attrs triples u) else None)\<rparr>"

subsection \<open>Deduplicating a triple list by unordered endpoint pair\<close>

text \<open>
  Not part of the program: the list the specification compares \<open>build_graph\<close> with, in
  which every unordered pair of endpoints occurs once. A triple is dropped when a later
  triple joins the same two endpoints (in either order), so the triple kept for a pair is
  its last one, the one whose label \<open>add_edge\<close> leaves on the edge.
\<close>

fun dedup_pairs :: "triple list \<Rightarrow> triple list" where
  "dedup_pairs [] = []"
| "dedup_pairs ((s, p, ob) # triples) =
     (if list_ex (joins s ob) triples then dedup_pairs triples
      else (s, p, ob) # dedup_pairs triples)"

text \<open>The unordered pair of endpoints of a triple, as a set of one or two strings.\<close>

definition unordered_pair :: "triple \<Rightarrow> string set" where
  "unordered_pair t = (case t of (s, p, ob) \<Rightarrow> {s, ob})"

section \<open>PDF handling: \<open>extract_text_from_pdfs\<close>\<close>

text \<open>
  \<open>PdfReader\<close> and \<open>page.extract_text\<close> belong to pypdf and are parameters: opening a
  file gives its pages or fails (an unreadable file), and a page gives its text, whatever
  that value is (the type \<open>'t\<close> is left open: a string, or a null value).
  The inner loop is \<open>for page in reader.pages: texts.append(page.extract_text())\<close>.
\<close>

fun extract_text_from_pdfs_from ::
  "('f \<Rightarrow> py_error + 'p list) \<Rightarrow> ('p \<Rightarrow> 't) \<Rightarrow> 't list \<Rightarrow> 'f list \<Rightarrow> py_error + 't list" where
  "extract_text_from_pdfs_from PdfReader extract_text texts [] = Inr texts"
| "extract_text_from_pdfs_from PdfReader extract_text texts (file # files) =
     (case PdfReader file of
        Inl e \<Rightarrow> Inl e
      | Inr pages \<Rightarrow>
          extract_text_from_pdfs_from PdfReader extract_text
            (foldl (\<lambda>texts page. texts @ [extract_text page]) texts pages) files)"

definition extract_text_from_pdfs ::
  "('f \<Rightarrow> py_error + 'p list) \<Rightarrow> ('p \<Rightarrow> 't) \<Rightarrow> 'f list \<Rightarrow> py_error + 't list" where
  "extract_text_from_pdfs PdfReader extract_text files =
     extract_text_from_pdfs_from PdfReader extract_text [] files"

section \<open>Retrieval and answering: \<open>ask_question\<close>\<close>

text \<open>A langchain \<open>Document\<close>: the chunk's text and its metadata dict.\<close>

record document =
  page_content :: string
  metadata :: "(string \<times> string) list"

text \<open>Python's \<open>sep.join(parts)\<close>.\<close>

fun join :: "string \<Rightarrow> string list \<Rightarrow> string" where
  "join sep [] = []"
| "join sep [x] = x"
| "join sep (x # y # ys) = x @ sep @ join sep (y # ys)"

definition newline :: string where
  "newline = [CHR 0x0A]"

text \<open>The f-string of \<open>ask_question\<close>, line by line; \<open>CHR 0x22\<close> is the double quote.\<close>

definition prompt_text :: "string \<Rightarrow> string \<Rightarrow> string" where
  "prompt_text context question =
     newline
     @ ''Answer ONLY from the context below.'' @ newline
     @ ''If not found, say '' @ [CHR 0x22] @ ''Answer not found in the documents.'' @ [CHR 0x22] @ newline
     @ newline
     @ ''Context:'' @ newline
     @ context @ newline
     @ newline
     @ ''Question:'' @ newline
     @ question @ newline
     @ newline
     @ ''Answer:'' @ newline"

text \<open>
  The first statement of \<open>ask_question\<close>: \<open>docs = vector_db.similarity_search(question, k=3)\<close>.
  The search is a method of the index object, so it is a parameter here.
\<close>

definition ask_question_docs :: "('db \<Rightarrow> string \<Rightarrow> nat \<Rightarrow> document list) \<Rightarrow> 'db \<Rightarrow> string \<Rightarrow> document list" where
  "ask_question_docs search vector_db question = search vector_db question 3"

text \<open>The second statement: \<open>context = "\n".join([d.page_content for d in docs])\<close>.\<close>

definition ask_question_context :: "document list \<Rightarrow> string" where
  "ask_question_context docs = join newline (map page_content docs)"

text \<open>
  \<open>llm\<close> is the generation pipeline, a parameter: for a prompt it returns a list of
  dicts. \<open>llm(prompt)[0]["generated_text"]\<close> raises \<open>IndexError\<close> on an empty list and
  \<open>KeyError\<close> on a dict without that key.
\<close>

definition ask_question ::
  "('db \<Rightarrow> string \<Rightarrow> nat \<Rightarrow> document list) \<Rightarrow> (string \<Rightarrow> (string \<rightharpoonup> string) list)
     \<Rightarrow> 'db \<Rightarrow> string \<Rightarrow> py_error + (string \<times> document list)" where
  "ask_question search llm vector_db question =
     (let docs = ask_question_docs search vector_db question;
          context = ask_question_context docs;
          prompt = prompt_text context question
      in case llm prompt of
           [] \<Rightarrow> Inl IndexError
         | generation # _ \<Rightarrow>
             (case generation ''generated_text'' of
                None \<Rightarrow> Inl KeyError
              | Some response \<Rightarrow> Inr (response, docs)))"

subsection \<open>The vector index\<close>

text \<open>
  Modelled from the spec: the vector index (\<open>FAISS.from_documents\<close> and its
  \<open>similarity_search\<close>) is library code outside the repository. The specification
  describes it as a mapping from embedding vector to chunk, each chunk embedded
  on its own as a function of its text, with a query that returns the \<open>k\<close> nearest
  chunks by similarity to the embedded question, nearest first, ties in a stable order,
  and all chunks when fewer than \<open>k\<close> are indexed. The embedding model \<open>embedding\<close> and the
  similarity measure are parameters; similarity scores are taken as real numbers.
\<close>

type_synonym 'v vector_db = "('v \<times> document) list"

definition create_vector_store :: "(string \<Rightarrow> 'v) \<Rightarrow> document list \<Rightarrow> 'v vector_db" where
  "create_vector_store embedding docs = map (\<lambda>d. (embedding (page_content d), d)) docs"

definition similarity_search ::
  "(string \<Rightarrow> 'v) \<Rightarrow> ('v \<Rightarrow> 'v \<Rightarrow> real) \<Rightarrow> 'v vector_db \<Rightarrow> string \<Rightarrow> nat \<Rightarrow> document list" where
  "similarity_search embedding similarity vector_db question k =
     map snd (take k (sort_key (\<lambda>entry. - similarity (embedding question) (fst entry)) vector_db))"

section \<open>Properties of the knowledge graph\<close>

lemma extract_triples_from_concat:
  "extract_triples_from nlp acc texts = acc @ concat (map (text_triples nlp) texts)"
  by (induction texts arbitrary: acc) simp_all

lemma extract_triples_concat:
  "extract_triples nlp texts = concat (map (text_triples nlp) texts)"
  by (simp add: extract_triples_def extract_triples_from_concat)

lemma endpoints_snoc: "endpoints (ts @ [(s, p, ob)]) = insert s (insert ob (endpoints ts))"
  by (auto simp: endpoints_def)

lemma edge_attrs_snoc:
  "edge_attrs (ts @ [(s, p, ob)]) u v =
     (if (s = u \<and> ob = v) \<or> (s = v \<and> ob = u) then Some (label_attr p) else edge_attrs ts u v)"
  by (simp add: edge_attrs_def joins_def)

lemma edge_attrs_Nil: "edge_attrs [] u v = None"
  by (simp add: edge_attrs_def)

lemma edge_attrs_Some:
  "edge_attrs ts u v = Some d \<Longrightarrow> \<exists>p. d = label_attr p \<and> ((u, p, v) \<in> set ts \<or> (v, p, u) \<in> set ts)"
proof (induction ts rule: rev_induct)
  case Nil
  then show ?case by (simp add: edge_attrs_Nil)
next
  case (snoc t ts)
  obtain s p ob where t: "t = (s, p, ob)" by (cases t)
  show ?case
  proof (cases "(s = u \<and> ob = v) \<or> (s = v \<and> ob = u)")
    case True
    with snoc.prems t have "d = label_attr p" by (simp add: edge_attrs_snoc)
    with True t show ?thesis by auto
  next
    case False
    with snoc.prems t have "edge_attrs ts u v = Some d" by (simp add: edge_attrs_snoc)
    from snoc.IH [OF this] show ?thesis by auto
  qed
qed

lemma edge_attrs_endpoints: "edge_attrs ts u v = Some d \<Longrightarrow> u \<in> endpoints ts \<and> v \<in> endpoints ts"
  by (drule edge_attrs_Some) (auto simp: endpoints_def)

lemma label_attr_update: "label_attr q ++ label_attr p = label_attr p"
  by (simp add: label_attr_def)

lemma triple_edge_attrs:
  "(s, p, ob) \<in> set ts \<Longrightarrow> edge_attrs ts s ob \<noteq> None \<and> edge_attrs ts ob s \<noteq> None"
proof (induction ts rule: rev_induct)
  case Nil
  then show ?case by simp
next
  case (snoc t ts)
  obtain s' p' ob' where t: "t = (s', p', ob')" by (cases t)
  from snoc t show ?case by (auto simp: edge_attrs_snoc)
qed

lemma edge_attrs_None: "u \<notin> endpoints ts \<Longrightarrow> edge_attrs ts u v = None"
  using edge_attrs_endpoints by (cases "edge_attrs ts u v") auto

lemma datadict_update:
  "(case edge_attrs ts u v of None \<Rightarrow> Map.empty | Some d \<Rightarrow> d) ++ label_attr p = label_attr p"
  by (auto split: option.splits dest!: edge_attrs_Some simp: label_attr_update)

lemma add_edge_graph_of:
  "add_edge s ob (label_attr p) (graph_of ts) = Inr (graph_of (ts @ [(s, p, ob)]))"
  unfolding add_edge_def add_missing_node_def graph_of_def Let_def
  by (auto simp: datadict_update endpoints_snoc edge_attrs_snoc edge_attrs_None fun_eq_iff)

lemma build_graph_from_graph_of:
  "build_graph_from (graph_of ts) us = Inr (graph_of (ts @ us))"
proof (induction us arbitrary: ts)
  case Nil
  then show ?case by simp
next
  case (Cons t us)
  obtain s p ob where t: "t = (s, p, ob)" by (cases t)
  show ?case using Cons [of "ts @ [t]"] by (simp add: t add_edge_graph_of)
qed

lemma graph_of_Nil: "graph_of [] = Graph"
  by (simp add: graph_of_def Graph_def endpoints_def)

lemma build_graph_closed_form: "build_graph ts = Inr (graph_of ts)"
  using build_graph_from_graph_of [of "[]" ts] by (simp add: build_graph_def graph_of_Nil)

lemma has_node_graph_of: "has_node (graph_of ts) n \<longleftrightarrow> n \<in> endpoints ts"
  by (simp add: has_node_def graph_of_def)

lemma get_edge_data_graph_of: "get_edge_data (graph_of ts) u v = edge_attrs ts u v"
  by (simp add: get_edge_data_def graph_of_def edge_attrs_None)

lemma edge_attrs_iff:
  "edge_attrs ts u v \<noteq> None \<longleftrightarrow> (\<exists>p. (u, p, v) \<in> set ts \<or> (v, p, u) \<in> set ts)"
proof
  assume "edge_attrs ts u v \<noteq> None"
  then obtain d where "edge_attrs ts u v = Some d" by blast
  from edge_attrs_Some [OF this] show "\<exists>p. (u, p, v) \<in> set ts \<or> (v, p, u) \<in> set ts"
    by blast
next
  assume "\<exists>p. (u, p, v) \<in> set ts \<or> (v, p, u) \<in> set ts"
  then show "edge_attrs ts u v \<noteq> None"
    using triple_edge_attrs by blast
qed

lemma has_edge_graph_of:
  "has_edge (graph_of ts) u v \<longleftrightarrow> (\<exists>p. (u, p, v) \<in> set ts \<or> (v, p, u) \<in> set ts)"
  unfolding has_edge_def get_edge_data_graph_of by (rule edge_attrs_iff)

lemma endpoints_edge:
  "n \<in> endpoints ts \<Longrightarrow> \<exists>m p. (n, p, m) \<in> set ts \<or> (m, p, n) \<in> set ts"
  by (auto simp: endpoints_def)

lemma joins_sym: "joins u v t = joins v u t"
  by (auto simp: joins_def)

lemma edge_attrs_sym: "edge_attrs ts u v = edge_attrs ts v u"
  unfolding edge_attrs_def using joins_sym [of u v] by presburger

lemma graph_of_cong:
  "endpoints ts = endpoints us \<Longrightarrow> (\<And>u v. edge_attrs ts u v = edge_attrs us u v) \<Longrightarrow> graph_of ts = graph_of us"
  by (simp add: graph_of_def fun_eq_iff)

lemma find_snoc:
  "List.find P (xs @ [x]) = (case List.find P xs of Some y \<Rightarrow> Some y | None \<Rightarrow> if P x then Some x else None)"
  by (induction xs) auto

lemma edge_attrs_Cons:
  "edge_attrs ((s, p, ob) # ts) u v =
     (case edge_attrs ts u v of Some d \<Rightarrow> Some d
      | None \<Rightarrow> if joins u v (s, p, ob) then Some (label_attr p) else None)"
  by (simp add: edge_attrs_def find_snoc split: option.splits)

lemma endpoints_Cons: "endpoints ((s, p, ob) # ts) = insert s (insert ob (endpoints ts))"
  by (auto simp: endpoints_def)

lemma list_ex_joins_edge_attrs:
  "list_ex (joins s ob) ts \<Longrightarrow> joins u v (s, p, ob) \<Longrightarrow> edge_attrs ts u v \<noteq> None"
proof -
  assume "list_ex (joins s ob) ts" and "joins u v (s, p, ob)"
  then have "\<exists>q. (u, q, v) \<in> set ts \<or> (v, q, u) \<in> set ts"
    by (auto simp: list_ex_iff joins_def)
  then show ?thesis using edge_attrs_iff by blast
qed

lemma list_ex_joins_endpoints:
  "list_ex (joins s ob) ts \<Longrightarrow> s \<in> endpoints ts \<and> ob \<in> endpoints ts"
  by (auto simp: list_ex_iff joins_def endpoints_def)

lemma endpoints_dedup_pairs: "endpoints (dedup_pairs ts) = endpoints ts"
  by (induction ts rule: dedup_pairs.induct)
     (auto simp: endpoints_Cons dest: list_ex_joins_endpoints)

lemma edge_attrs_dedup_pairs: "edge_attrs (dedup_pairs ts) u v = edge_attrs ts u v"
proof (induction ts rule: dedup_pairs.induct)
  case 1
  then show ?case by simp
next
  case (2 s p ob triples)
  show ?case
  proof (cases "list_ex (joins s ob) triples")
    case True
    with 2 have "edge_attrs (dedup_pairs ((s, p, ob) # triples)) u v = edge_attrs triples u v"
      by simp
    moreover have "edge_attrs ((s, p, ob) # triples) u v = edge_attrs triples u v"
      using list_ex_joins_edge_attrs [OF True, of u v p]
      by (auto simp: edge_attrs_Cons split: option.splits)
    ultimately show ?thesis by simp
  next
    case False
    with 2 show ?thesis by (simp add: edge_attrs_Cons)
  qed
qed

lemma graph_of_dedup_pairs: "graph_of (dedup_pairs ts) = graph_of ts"
  by (rule graph_of_cong) (simp_all add: endpoints_dedup_pairs edge_attrs_dedup_pairs)

lemma graph_of_readd:
  assumes "edge_attrs ts s ob = Some (label_attr p)"
  shows "graph_of (ts @ [(s, p, ob)]) = graph_of ts" and "graph_of (ts @ [(ob, p, s)]) = graph_of ts"
proof -
  from assms have e: "s \<in> endpoints ts" "ob \<in> endpoints ts"
    using edge_attrs_endpoints by blast+
  from assms have r: "edge_attrs ts ob s = Some (label_attr p)"
    by (simp add: edge_attrs_sym [of ts ob s])
  show "graph_of (ts @ [(s, p, ob)]) = graph_of ts"
    by (rule graph_of_cong) (use e assms r in \<open>auto simp: endpoints_snoc edge_attrs_snoc\<close>)
  show "graph_of (ts @ [(ob, p, s)]) = graph_of ts"
    by (rule graph_of_cong) (use e assms r in \<open>auto simp: endpoints_snoc edge_attrs_snoc\<close>)
qed


lemma set_text_triples:
  "set (text_triples nlp text) =
     {(nlp text ! i, ''related_to'', nlp text ! Suc i) | i. Suc i < length (nlp text)}"
  by (auto simp: text_triples_def Let_def)

lemma text_triples_label: "(s, p, ob) \<in> set (text_triples nlp text) \<Longrightarrow> p = ''related_to''"
  by (auto simp: set_text_triples)

lemma extract_triples_label: "(s, p, ob) \<in> set (extract_triples nlp texts) \<Longrightarrow> p = ''related_to''"
  by (auto simp: extract_triples_concat dest: text_triples_label)

lemma endpoints_append: "endpoints (ts @ us) = endpoints ts \<union> endpoints us"
  by (auto simp: endpoints_def)

lemma endpoints_text_triples:
  "endpoints (text_triples nlp text) = (if 2 \<le> length (nlp text) then set (nlp text) else {})"
proof (cases "2 \<le> length (nlp text)")
  case False
  then show ?thesis by (auto simp: endpoints_def set_text_triples)
next
  case True
  have "endpoints (text_triples nlp text) \<subseteq> set (nlp text)"
    by (auto simp: endpoints_def set_text_triples)
  moreover have "e \<in> endpoints (text_triples nlp text)" if "e \<in> set (nlp text)" for e
  proof -
    from that obtain j where j: "j < length (nlp text)" "nlp text ! j = e"
      by (auto simp: in_set_conv_nth)
    show ?thesis
    proof (cases "Suc j < length (nlp text)")
      case True
      then have "(nlp text ! j, ''related_to'', nlp text ! Suc j) \<in> set (text_triples nlp text)"
        by (auto simp: set_text_triples)
      with j show ?thesis by (force simp: endpoints_def)
    next
      case False
      with j \<open>2 \<le> length (nlp text)\<close> obtain i where i: "j = Suc i" "Suc i < length (nlp text)"
        by (cases j) auto
      then have "(nlp text ! i, ''related_to'', nlp text ! Suc i) \<in> set (text_triples nlp text)"
        by (auto simp: set_text_triples)
      with j i show ?thesis by (force simp: endpoints_def)
    qed
  qed
  ultimately show ?thesis using True by auto
qed

lemma text_triples_short: "length (nlp text) \<le> 1 \<Longrightarrow> text_triples nlp text = []"
  by (simp add: text_triples_def Let_def)

lemma get_edge_data_extract:
  assumes "has_edge (graph_of (extract_triples nlp texts)) u v"
  shows "get_edge_data (graph_of (extract_triples nlp texts)) u v = Some (label_attr ''related_to'')"
proof -
  from assms obtain d where d: "edge_attrs (extract_triples nlp texts) u v = Some d"
    by (auto simp: has_edge_def get_edge_data_graph_of)
  from edge_attrs_Some [OF d] have "d = label_attr ''related_to''"
    using extract_triples_label by blast
  with d show ?thesis by (simp add: get_edge_data_graph_of)
qed

lemma has_edge_append:
  "has_edge (graph_of (ts @ us)) u v \<longleftrightarrow> has_edge (graph_of ts) u v \<or> has_edge (graph_of us) u v"
  by (auto simp: has_edge_graph_of)

lemma has_node_append:
  "has_node (graph_of (ts @ us)) n \<longleftrightarrow> has_node (graph_of ts) n \<or> has_node (graph_of us) n"
  by (simp add: has_node_graph_of endpoints_append)

lemma extract_triples_single: "extract_triples nlp [text] = text_triples nlp text"
  by (simp add: extract_triples_concat)

lemma extract_triples_pair:
  "extract_triples nlp [text1, text2] = text_triples nlp text1 @ text_triples nlp text2"
  by (simp add: extract_triples_concat)

lemma extract_triples_skip:
  "length (nlp text) \<le> 1 \<Longrightarrow>
     extract_triples nlp (before @ text # after) = extract_triples nlp (before @ after)"
  by (simp add: extract_triples_concat text_triples_short)

lemma text_triples_three:
  "nlp text = [A, B, C] \<Longrightarrow>
     text_triples nlp text = [(A, ''related_to'', B), (B, ''related_to'', C)]"
  by (simp add: text_triples_def Let_def upt_rec)


lemma three_entities_graph:
  assumes "nlp text = [A, B, C]" and "distinct [A, B, C]"
  shows "get_edge_data (graph_of (extract_triples nlp [text])) A B = Some (label_attr ''related_to'')"
    and "get_edge_data (graph_of (extract_triples nlp [text])) B C = Some (label_attr ''related_to'')"
    and "has_edge (graph_of (extract_triples nlp [text])) A B"
    and "has_edge (graph_of (extract_triples nlp [text])) B C"
    and "\<not> has_edge (graph_of (extract_triples nlp [text])) A C"
    and "\<not> has_edge (graph_of (extract_triples nlp [text])) C A"
proof -
  have t: "extract_triples nlp [text] = [(A, ''related_to'', B), (B, ''related_to'', C)]"
    using assms(1) by (simp add: extract_triples_single text_triples_three)
  show "has_edge (graph_of (extract_triples nlp [text])) A B"
    and "has_edge (graph_of (extract_triples nlp [text])) B C"
    and "\<not> has_edge (graph_of (extract_triples nlp [text])) A C"
    and "\<not> has_edge (graph_of (extract_triples nlp [text])) C A"
    using assms(2) by (auto simp: t has_edge_graph_of)
  then show "get_edge_data (graph_of (extract_triples nlp [text])) A B = Some (label_attr ''related_to'')"
    and "get_edge_data (graph_of (extract_triples nlp [text])) B C = Some (label_attr ''related_to'')"
    using get_edge_data_extract by blast+
qed

text \<open>
  \<open>dedup_pairs\<close> keeps triples of the list, one for every unordered pair of endpoints
  that occurs in it. For triples that all carry the same label, as those of
  \<open>extract_triples\<close> do, the graph depends on the set of unordered pairs alone, so any
  other choice of the triple kept for a pair gives the same graph.
\<close>

lemma joins_unordered_pair: "joins u v t \<longleftrightarrow> unordered_pair t = {u, v}"
  by (cases t) (auto simp: joins_def unordered_pair_def doubleton_eq_iff)

lemma unordered_pair_triple: "unordered_pair (s, p, ob) = {s, ob}"
  by (simp add: unordered_pair_def)

lemma list_ex_joins_pair:
  "list_ex (joins s ob) ts \<longleftrightarrow> unordered_pair (s, p, ob) \<in> unordered_pair ` set ts"
  unfolding list_ex_iff joins_unordered_pair unordered_pair_triple image_iff
  by (rule bex_cong) (rule refl, rule eq_commute)

lemma set_dedup_pairs: "set (dedup_pairs ts) \<subseteq> set ts"
  by (induction ts rule: dedup_pairs.induct) auto

lemma pairs_dedup_pairs: "unordered_pair ` set (dedup_pairs ts) = unordered_pair ` set ts"
proof (induction ts rule: dedup_pairs.induct)
  case 1
  then show ?case by simp
next
  case (2 s p ob triples)
  show ?case
  proof (cases "list_ex (joins s ob) triples")
    case True
    then have "unordered_pair (s, p, ob) \<in> unordered_pair ` set triples"
      by (simp add: list_ex_joins_pair [of s ob triples p])
    with 2 True show ?thesis by (simp add: insert_absorb)
  next
    case False
    with 2 show ?thesis by simp
  qed
qed

lemma distinct_dedup_pairs: "distinct (map unordered_pair (dedup_pairs ts))"
proof (induction ts rule: dedup_pairs.induct)
  case 1
  then show ?case by simp
next
  case (2 s p ob triples)
  show ?case
  proof (cases "list_ex (joins s ob) triples")
    case True
    with 2 show ?thesis by simp
  next
    case False
    then have "unordered_pair (s, p, ob) \<notin> unordered_pair ` set triples"
      by (simp add: list_ex_joins_pair [of s ob triples p])
    then have "unordered_pair (s, p, ob) \<notin> unordered_pair ` set (dedup_pairs triples)"
      by (simp add: pairs_dedup_pairs)
    with 2 False show ?thesis by simp
  qed
qed

lemma endpoints_pairs: "endpoints ts = \<Union> (unordered_pair ` set ts)"
  by (auto simp: endpoints_def unordered_pair_def)

lemma pair_in_triples:
  "{u, v} \<in> unordered_pair ` set ts \<longleftrightarrow> (\<exists>q. (u, q, v) \<in> set ts \<or> (v, q, u) \<in> set ts)"
proof
  assume "{u, v} \<in> unordered_pair ` set ts"
  then obtain s q ob where t: "(s, q, ob) \<in> set ts" "{u, v} = {s, ob}"
    by (auto simp: unordered_pair_def)
  from t(2) have "(s = u \<and> ob = v) \<or> (s = v \<and> ob = u)"
    by (auto simp: doubleton_eq_iff)
  with t(1) show "\<exists>q. (u, q, v) \<in> set ts \<or> (v, q, u) \<in> set ts" by blast
next
  assume "\<exists>q. (u, q, v) \<in> set ts \<or> (v, q, u) \<in> set ts"
  then obtain q where "(u, q, v) \<in> set ts \<or> (v, q, u) \<in> set ts" by blast
  then show "{u, v} \<in> unordered_pair ` set ts"
  proof
    assume "(u, q, v) \<in> set ts"
    then have "unordered_pair (u, q, v) \<in> unordered_pair ` set ts" by (rule imageI)
    then show ?thesis by (simp add: unordered_pair_triple)
  next
    assume "(v, q, u) \<in> set ts"
    then have "unordered_pair (v, q, u) \<in> unordered_pair ` set ts" by (rule imageI)
    then show ?thesis by (simp add: unordered_pair_triple insert_commute)
  qed
qed

lemma edge_attrs_uniform:
  assumes "\<forall>t \<in> set ts. fst (snd t) = p"
  shows "edge_attrs ts u v = (if {u, v} \<in> unordered_pair ` set ts then Some (label_attr p) else None)"
proof (cases "edge_attrs ts u v")
  case None
  then have "\<not> (\<exists>q. (u, q, v) \<in> set ts \<or> (v, q, u) \<in> set ts)"
    using edge_attrs_iff by blast
  then have "{u, v} \<notin> unordered_pair ` set ts"
    by (simp only: pair_in_triples not_False_eq_True)
  with None show ?thesis by simp
next
  case (Some d)
  from edge_attrs_Some [OF Some] obtain q where q: "d = label_attr q"
    "(u, q, v) \<in> set ts \<or> (v, q, u) \<in> set ts" by blast
  with assms have "q = p" by auto
  moreover from q(2) have "{u, v} \<in> unordered_pair ` set ts"
    unfolding pair_in_triples by blast
  ultimately show ?thesis using Some q(1) by simp
qed

lemma build_graph_pairs_only:
  assumes "\<forall>t \<in> set ts. fst (snd t) = p" and "\<forall>t \<in> set us. fst (snd t) = p"
    and "unordered_pair ` set ts = unordered_pair ` set us"
  shows "build_graph ts = build_graph us"
proof -
  have "graph_of ts = graph_of us"
  proof (rule graph_of_cong)
    show "endpoints ts = endpoints us" by (simp add: endpoints_pairs assms(3))
    show "edge_attrs ts u v = edge_attrs us u v" for u v
      by (simp add: edge_attrs_uniform [OF assms(1)] edge_attrs_uniform [OF assms(2)] assms(3))
  qed
  then show ?thesis by (simp add: build_graph_closed_form)
qed

section \<open>Properties of PDF handling and retrieval\<close>

lemma foldl_append_texts:
  "foldl (\<lambda>texts page. texts @ [extract_text page]) texts pages = texts @ map extract_text pages"
  by (induction pages arbitrary: texts) simp_all

lemma extract_text_from_pdfs_from_readable:
  "map PdfReader files = map Inr pagess \<Longrightarrow>
     extract_text_from_pdfs_from PdfReader extract_text texts files
       = Inr (texts @ concat (map (map extract_text) pagess))"
proof (induction files arbitrary: texts pagess)
  case Nil
  then show ?case by simp
next
  case (Cons f fs)
  then obtain pages rest where p: "pagess = pages # rest" "PdfReader f = Inr pages"
    "map PdfReader fs = map Inr rest"
    by (cases pagess) auto
  with Cons.IH [OF p(3)] show ?case by (simp add: foldl_append_texts)
qed

lemma extract_text_from_pdfs_from_unreadable:
  "PdfReader file = Inl e \<Longrightarrow> map PdfReader before = map Inr pagess \<Longrightarrow>
     extract_text_from_pdfs_from PdfReader extract_text texts (before @ file # after) = Inl e"
proof (induction before arbitrary: texts pagess)
  case Nil
  then show ?case by simp
next
  case (Cons f fs)
  then obtain pages rest where p: "pagess = pages # rest" "PdfReader f = Inr pages"
    "map PdfReader fs = map Inr rest"
    by (cases pagess) auto
  with Cons.IH [OF Cons.prems(1) p(3)] show ?case by simp
qed

lemma join_Cons: "join sep (x # xs) = x @ concat (map (\<lambda>y. sep @ y) xs)"
  by (induction xs arbitrary: x) simp_all

lemma mset_take_subset: "mset (take k xs) \<subseteq># mset xs"
  by (metis append_take_drop_id mset_append mset_subset_eq_add_left)

section \<open>The claims\<close>

text \<open>
  Claim C10. For every triple list, \<open>build_graph\<close> returns a graph (it raises nothing),
  and every node of that graph is an endpoint of at least one of its edges: nodes come
  into the graph only through \<open>add_edge\<close>, so no node is isolated. (A node whose only
  edge is a self-loop is an endpoint of that loop.)
\<close>

theorem build_graph_no_isolated_nodes:
  "\<exists>G. build_graph triples = Inr G \<and> (\<forall>n. has_node G n \<longrightarrow> (\<exists>m. has_edge G n m))"
proof -
  have "has_edge (graph_of triples) n m"
    if "(n, p, m) \<in> set triples \<or> (m, p, n) \<in> set triples" for n m p
    using that has_edge_graph_of by blast
  then have "\<forall>n. has_node (graph_of triples) n \<longrightarrow> (\<exists>m. has_edge (graph_of triples) n m)"
    using endpoints_edge has_node_graph_of by blast
  then show ?thesis by (simp add: build_graph_closed_form)
qed

theorem build_graph_no_isolated_nodes_witness:
  "\<exists>G. build_graph [(''Ada'', ''related_to'', ''Bob'')] = Inr G \<and> has_node G ''Bob''
     \<and> (\<exists>m. has_edge G ''Bob'' m)"
proof -
  obtain G where G: "build_graph [(''Ada'', ''related_to'', ''Bob'')] = Inr G"
    and iso: "\<forall>n. has_node G n \<longrightarrow> (\<exists>m. has_edge G n m)"
    using build_graph_no_isolated_nodes [of "[(''Ada'', ''related_to'', ''Bob'')]"] by blast
  from G have "has_node G ''Bob''"
    by (auto simp: build_graph_def Graph_def add_edge_def add_missing_node_def has_node_def Let_def)
  with G iso show ?thesis by blast
qed

text \<open>
  Claim C8. Adding an edge is idempotent and symmetric. For every triple list,
  \<open>build_graph\<close> returns the same graph for the list and for the list deduplicated by
  unordered endpoint pair (duplicated and reversed pairs dropped); and on the graph it
  returns, adding again an edge that is already there with its label, in either
  endpoint order, returns the graph unchanged: no multiplicity accumulates.
\<close>

theorem build_graph_dedup:
  "(\<exists>G. build_graph triples = Inr G \<and> build_graph (dedup_pairs triples) = Inr G)
   \<and> (\<forall>G s p ob. build_graph triples = Inr G \<and> get_edge_data G s ob = Some (label_attr p)
         \<longrightarrow> add_edge s ob (label_attr p) G = Inr G \<and> add_edge ob s (label_attr p) G = Inr G)"
proof -
  have "add_edge s ob (label_attr p) (graph_of triples) = Inr (graph_of triples)
      \<and> add_edge ob s (label_attr p) (graph_of triples) = Inr (graph_of triples)"
    if "get_edge_data (graph_of triples) s ob = Some (label_attr p)" for s p ob
    using that graph_of_readd [of triples s ob p]
    by (simp add: get_edge_data_graph_of add_edge_graph_of)
  then show ?thesis
    by (simp add: build_graph_closed_form graph_of_dedup_pairs)
qed

theorem build_graph_dedup_witness:
  "\<exists>G. build_graph [(''Ada'', ''related_to'', ''Bob''), (''Bob'', ''related_to'', ''Ada''),
                     (''Ada'', ''related_to'', ''Bob'')] = Inr G
     \<and> build_graph [(''Ada'', ''related_to'', ''Bob'')] = Inr G
     \<and> get_edge_data G ''Bob'' ''Ada'' = Some (label_attr ''related_to'')
     \<and> add_edge ''Bob'' ''Ada'' (label_attr ''related_to'') G = Inr G
     \<and> add_edge ''Ada'' ''Bob'' (label_attr ''related_to'') G = Inr G"
proof -
  let ?ts = "[(''Ada'', ''related_to'', ''Bob''), (''Bob'', ''related_to'', ''Ada''),
              (''Ada'', ''related_to'', ''Bob'')]"
  have d: "dedup_pairs ?ts = [(''Ada'', ''related_to'', ''Bob'')]"
    by (simp add: joins_def)
  obtain G where G: "build_graph ?ts = Inr G" "build_graph (dedup_pairs ?ts) = Inr G"
    and re: "\<forall>G s p ob. build_graph ?ts = Inr G \<and> get_edge_data G s ob = Some (label_attr p)
         \<longrightarrow> add_edge s ob (label_attr p) G = Inr G \<and> add_edge ob s (label_attr p) G = Inr G"
    using build_graph_dedup [of ?ts] by blast
  from G(2) have e: "get_edge_data G ''Bob'' ''Ada'' = Some (label_attr ''related_to'')"
    unfolding d
    by (auto simp: build_graph_def Graph_def add_edge_def add_missing_node_def get_edge_data_def
        Let_def)
  from re G(1) e have "add_edge ''Bob'' ''Ada'' (label_attr ''related_to'') G = Inr G
      \<and> add_edge ''Ada'' ''Bob'' (label_attr ''related_to'') G = Inr G"
    by blast
  with G e show ?thesis unfolding d by blast
qed

text \<open>
  Claim C9. When the entity sequence of a text holds the same surface string at two
  consecutive positions, \<open>extract_triples\<close> emits a triple whose subject and object are
  that string, and the graph \<open>build_graph\<close> returns for the triples has that string as a
  node with a self-loop on it, labelled \<open>related_to\<close>: the graph interface returns
  graphs with self-loops.
\<close>

theorem self_loop:
  assumes "text \<in> set texts" and "Suc i < length (nlp text)"
    and "nlp text ! i = e" and "nlp text ! Suc i = e"
  shows "(e, ''related_to'', e) \<in> set (extract_triples nlp texts)
     \<and> (\<exists>G. build_graph (extract_triples nlp texts) = Inr G \<and> has_node G e \<and> has_edge G e e
          \<and> get_edge_data G e e = Some (label_attr ''related_to''))"
proof -
  from assms(2-4) have "(e, ''related_to'', e) \<in> set (text_triples nlp text)"
    by (auto simp: set_text_triples)
  with assms(1) have t: "(e, ''related_to'', e) \<in> set (extract_triples nlp texts)"
    by (auto simp: extract_triples_concat)
  then have he: "has_edge (graph_of (extract_triples nlp texts)) e e"
    using has_edge_graph_of by blast
  from t have "e \<in> endpoints (extract_triples nlp texts)"
    by (force simp: endpoints_def)
  then have "has_node (graph_of (extract_triples nlp texts)) e"
    by (simp add: has_node_graph_of)
  with t he get_edge_data_extract [OF he] show ?thesis
    by (simp add: build_graph_closed_form)
qed

theorem self_loop_witness:
  "(''Rome'', ''related_to'', ''Rome'')
      \<in> set (extract_triples (\<lambda>text. [''Rome'', ''Rome'', ''Oslo'']) [''page one''])
   \<and> (\<exists>G. build_graph (extract_triples (\<lambda>text. [''Rome'', ''Rome'', ''Oslo'']) [''page one''])
            = Inr G
          \<and> has_node G ''Rome'' \<and> has_edge G ''Rome'' ''Rome''
          \<and> get_edge_data G ''Rome'' ''Rome'' = Some (label_attr ''related_to''))"
  using self_loop [of "''page one''" "[''page one'']" 0 "\<lambda>text. [''Rome'', ''Rome'', ''Oslo'']" "''Rome''"]
  by simp

text \<open>
  Claim C1, as the program has it. (1) For a text whose entity sequence is \<open>[A, B, C]\<close>,
  three distinct strings, the graph built from that text has the edges \<open>(A, B)\<close> and
  \<open>(B, C)\<close>, each labelled \<open>related_to\<close>, and no edge between \<open>A\<close> and \<open>C\<close>; in a graph
  built from several texts, that one among them, the two edges are there as well, with
  that label. (2) A text with at most one entity yields no triple, and leaving it out of
  the input changes nothing. (3) For two texts, the graph of both has as edges the union
  of the edges of the two single-text graphs, all labelled \<open>related_to\<close>, and as nodes
  the union of their nodes; nodes are keys of a dict, so a string is at most one node,
  and it is a node exactly when it occurs in the entity sequence of a text with at least
  two entities. A string shared by two single-entity texts is therefore no node at all.
\<close>

theorem extract_build_graph:
  "(nlp text = [A, B, C] \<and> distinct [A, B, C] \<longrightarrow>
      (\<exists>G. build_graph (extract_triples nlp [text]) = Inr G
         \<and> has_edge G A B \<and> get_edge_data G A B = Some (label_attr ''related_to'')
         \<and> has_edge G B C \<and> get_edge_data G B C = Some (label_attr ''related_to'')
         \<and> \<not> has_edge G A C \<and> \<not> has_edge G C A))
   \<and> (length (nlp text) \<le> 1 \<longrightarrow>
        extract_triples nlp [text] = []
        \<and> extract_triples nlp (before @ text # after) = extract_triples nlp (before @ after))
   \<and> (\<exists>G1 G2 G. build_graph (extract_triples nlp [text1]) = Inr G1
        \<and> build_graph (extract_triples nlp [text2]) = Inr G2
        \<and> build_graph (extract_triples nlp [text1, text2]) = Inr G
        \<and> (\<forall>u v. has_edge G u v \<longleftrightarrow> has_edge G1 u v \<or> has_edge G2 u v)
        \<and> (\<forall>u v. has_edge G u v \<longrightarrow> get_edge_data G u v = Some (label_attr ''related_to''))
        \<and> (\<forall>n. has_node G n \<longleftrightarrow> has_node G1 n \<or> has_node G2 n)
        \<and> (\<forall>n. has_node G n \<longleftrightarrow>
              (n \<in> set (nlp text1) \<and> 2 \<le> length (nlp text1))
              \<or> (n \<in> set (nlp text2) \<and> 2 \<le> length (nlp text2))))
   \<and> (text \<in> set texts \<and> nlp text = [A, B, C] \<longrightarrow>
        (\<exists>G. build_graph (extract_triples nlp texts) = Inr G
           \<and> has_edge G A B \<and> get_edge_data G A B = Some (label_attr ''related_to'')
           \<and> has_edge G B C \<and> get_edge_data G B C = Some (label_attr ''related_to'')))"
proof (intro conjI impI)
  assume "nlp text = [A, B, C] \<and> distinct [A, B, C]"
  then show "\<exists>G. build_graph (extract_triples nlp [text]) = Inr G
         \<and> has_edge G A B \<and> get_edge_data G A B = Some (label_attr ''related_to'')
         \<and> has_edge G B C \<and> get_edge_data G B C = Some (label_attr ''related_to'')
         \<and> \<not> has_edge G A C \<and> \<not> has_edge G C A"
    using three_entities_graph [of nlp "text" A B C] by (simp add: build_graph_closed_form)
next
  assume "length (nlp text) \<le> 1"
  then show "extract_triples nlp [text] = []"
    by (simp add: extract_triples_single text_triples_short)
next
  assume "length (nlp text) \<le> 1"
  then show "extract_triples nlp (before @ text # after) = extract_triples nlp (before @ after)"
    by (rule extract_triples_skip)
next
  let ?G1 = "graph_of (extract_triples nlp [text1])"
  let ?G2 = "graph_of (extract_triples nlp [text2])"
  let ?G = "graph_of (extract_triples nlp [text1, text2])"
  have e: "\<forall>u v. has_edge ?G u v \<longleftrightarrow> has_edge ?G1 u v \<or> has_edge ?G2 u v"
    by (simp add: extract_triples_pair extract_triples_single has_edge_append)
  have l: "\<forall>u v. has_edge ?G u v \<longrightarrow> get_edge_data ?G u v = Some (label_attr ''related_to'')"
    using get_edge_data_extract by blast
  have n: "\<forall>n. has_node ?G n \<longleftrightarrow> has_node ?G1 n \<or> has_node ?G2 n"
    by (simp add: extract_triples_pair extract_triples_single has_node_append)
  have m: "\<forall>n. has_node ?G n \<longleftrightarrow>
              (n \<in> set (nlp text1) \<and> 2 \<le> length (nlp text1))
              \<or> (n \<in> set (nlp text2) \<and> 2 \<le> length (nlp text2))"
    by (simp add: extract_triples_pair has_node_graph_of endpoints_append endpoints_text_triples)
  from e l n m show "\<exists>G1 G2 G. build_graph (extract_triples nlp [text1]) = Inr G1
        \<and> build_graph (extract_triples nlp [text2]) = Inr G2
        \<and> build_graph (extract_triples nlp [text1, text2]) = Inr G
        \<and> (\<forall>u v. has_edge G u v \<longleftrightarrow> has_edge G1 u v \<or> has_edge G2 u v)
        \<and> (\<forall>u v. has_edge G u v \<longrightarrow> get_edge_data G u v = Some (label_attr ''related_to''))
        \<and> (\<forall>n. has_node G n \<longleftrightarrow> has_node G1 n \<or> has_node G2 n)
        \<and> (\<forall>n. has_node G n \<longleftrightarrow>
              (n \<in> set (nlp text1) \<and> 2 \<le> length (nlp text1))
              \<or> (n \<in> set (nlp text2) \<and> 2 \<le> length (nlp text2)))"
    unfolding build_graph_closed_form by blast
next
  let ?G = "graph_of (extract_triples nlp texts)"
  assume a: "text \<in> set texts \<and> nlp text = [A, B, C]"
  then have "(A, ''related_to'', B) \<in> set (text_triples nlp text)"
    and "(B, ''related_to'', C) \<in> set (text_triples nlp text)"
    by (simp_all add: text_triples_three)
  with a have "(A, ''related_to'', B) \<in> set (extract_triples nlp texts)"
    and "(B, ''related_to'', C) \<in> set (extract_triples nlp texts)"
    by (auto simp: extract_triples_concat)
  then have e: "has_edge ?G A B" "has_edge ?G B C"
    using has_edge_graph_of by blast+
  from e get_edge_data_extract
  have "get_edge_data ?G A B = Some (label_attr ''related_to'')"
    and "get_edge_data ?G B C = Some (label_attr ''related_to'')"
    by blast+
  with e show "\<exists>G. build_graph (extract_triples nlp texts) = Inr G
           \<and> has_edge G A B \<and> get_edge_data G A B = Some (label_attr ''related_to'')
           \<and> has_edge G B C \<and> get_edge_data G B C = Some (label_attr ''related_to'')"
    by (simp add: build_graph_closed_form)
qed

theorem extract_build_graph_witness:
  "(\<exists>G. build_graph (extract_triples
            (\<lambda>text. if text = ''doc1'' then [''Ada'', ''Bob'', ''Cy'']
                     else if text = ''doc2'' then [''Bob'', ''Dan''] else []) [''doc1'']) = Inr G
       \<and> has_edge G ''Ada'' ''Bob'' \<and> has_edge G ''Bob'' ''Cy'' \<and> \<not> has_edge G ''Ada'' ''Cy'')
   \<and> extract_triples
         (\<lambda>text. if text = ''doc1'' then [''Ada'', ''Bob'', ''Cy'']
                  else if text = ''doc2'' then [''Bob'', ''Dan''] else []) [''doc3''] = []
   \<and> (\<exists>G. build_graph (extract_triples
            (\<lambda>text. if text = ''doc1'' then [''Ada'', ''Bob'', ''Cy'']
                     else if text = ''doc2'' then [''Bob'', ''Dan''] else []) [''doc1'', ''doc2'']) = Inr G
       \<and> has_node G ''Bob'' \<and> \<not> has_node G ''Eve'')"
proof -
  let ?nlp = "\<lambda>text. if text = ''doc1'' then [''Ada'', ''Bob'', ''Cy'']
                     else if text = ''doc2'' then [''Bob'', ''Dan''] else []"
  have "\<exists>G. build_graph (extract_triples ?nlp [''doc1'']) = Inr G
       \<and> has_edge G ''Ada'' ''Bob'' \<and> has_edge G ''Bob'' ''Cy'' \<and> \<not> has_edge G ''Ada'' ''Cy''"
  proof -
    have h: "?nlp ''doc1'' = [''Ada'', ''Bob'', ''Cy''] \<and> distinct [''Ada'', ''Bob'', ''Cy'']"
      by simp
    from extract_build_graph [of ?nlp "''doc1''" "''Ada''" "''Bob''" "''Cy''", THEN conjunct1,
        rule_format, OF h]
    show ?thesis by blast
  qed
  moreover have "extract_triples ?nlp [''doc3''] = []"
  proof -
    have h: "length (?nlp ''doc3'') \<le> 1" by simp
    from extract_build_graph [of ?nlp "''doc3''", THEN conjunct2, THEN conjunct1,
        rule_format, OF h]
    show ?thesis by blast
  qed
  moreover have "\<exists>G. build_graph (extract_triples ?nlp [''doc1'', ''doc2'']) = Inr G
       \<and> has_node G ''Bob'' \<and> \<not> has_node G ''Eve''"
  proof -
    obtain G where G: "build_graph (extract_triples ?nlp [''doc1'', ''doc2'']) = Inr G"
      and n: "\<forall>n. has_node G n \<longleftrightarrow>
              (n \<in> set (?nlp ''doc1'') \<and> 2 \<le> length (?nlp ''doc1''))
              \<or> (n \<in> set (?nlp ''doc2'') \<and> 2 \<le> length (?nlp ''doc2''))"
      using extract_build_graph [of ?nlp _ _ _ _ _ _ "''doc1''" "''doc2''", THEN conjunct2,
          THEN conjunct2, THEN conjunct1]
      by blast
    from n have "has_node G ''Bob'' \<and> \<not> has_node G ''Eve''" by simp
    with G show ?thesis by blast
  qed
  ultimately show ?thesis by blast
qed

text \<open>
  Claim C1 as written asks for exactly one node for a string that two texts share. Two
  texts whose only entity is \<open>Paris\<close> share it, yet no triple is emitted and the graph is
  the empty graph, without a node \<open>Paris\<close>.
\<close>

theorem shared_entity_without_node:
  "''Paris'' \<in> set ((\<lambda>text. [''Paris'']) ''first page'')
   \<and> ''Paris'' \<in> set ((\<lambda>text. [''Paris'']) ''second page'')
   \<and> build_graph (extract_triples (\<lambda>text. [''Paris'']) [''first page'', ''second page'']) = Inr Graph
   \<and> \<not> has_node Graph ''Paris''"
  by (simp add: extract_triples_def text_triples_def build_graph_def has_node_def Graph_def)

text \<open>
  Claim C5. For every ordered collection of readable PDF files (\<open>PdfReader\<close> opens each
  of them), \<open>extract_text_from_pdfs\<close> returns a list with one entry per page: the texts
  of all pages of the first file in page order, then those of the second file, and so
  on; its length is the sum of the files' page counts.
\<close>

theorem extract_text_from_pdfs_pages:
  assumes "map PdfReader files = map Inr pagess"
  shows "\<exists>texts. extract_text_from_pdfs PdfReader extract_text files = Inr texts
           \<and> texts = concat (map (map extract_text) pagess)
           \<and> length texts = sum_list (map length pagess)"
  using extract_text_from_pdfs_from_readable [OF assms, of extract_text "[]"]
  by (simp add: extract_text_from_pdfs_def length_concat comp_def)

theorem extract_text_from_pdfs_pages_witness:
  "\<exists>texts. extract_text_from_pdfs (\<lambda>file. if file = ''a.pdf'' then Inr [1, 2] else Inr [3::nat])
              (\<lambda>page. replicate page CHR ''x'') [''a.pdf'', ''b.pdf''] = Inr texts
     \<and> texts = [''x'', ''xx'', ''xxx''] \<and> length texts = 3"
  using extract_text_from_pdfs_pages [of "\<lambda>file. if file = ''a.pdf'' then Inr [1, 2] else Inr [3::nat]"
      "[''a.pdf'', ''b.pdf'']" "[[1, 2], [3]]" "\<lambda>page. replicate page CHR ''x''"]
  by (simp add: numeral_2_eq_2 numeral_3_eq_3)

text \<open>
  Claim C3. \<open>ask_question\<close> builds its context block as the texts of the retrieved
  chunks, in retrieval order, separated by newlines, and returns the pair of the answer
  string and exactly the list of retrieved chunks. The answer is the \<open>generated_text\<close> of
  the first generation the pipeline returns for the prompt; the theorem is stated for a
  pipeline that returns one.
\<close>

theorem ask_question_returns:
  assumes "llm (prompt_text (join newline (map page_content (search vector_db question 3))) question)
             = generation # rest"
    and "generation ''generated_text'' = Some response"
  shows "ask_question search llm vector_db question = Inr (response, search vector_db question 3)
     \<and> ask_question_context (search vector_db question 3)
         = (case map page_content (search vector_db question 3) of
              [] \<Rightarrow> [] | c # cs \<Rightarrow> c @ concat (map (\<lambda>y. newline @ y) cs))"
  using assms
  by (simp add: ask_question_def ask_question_docs_def ask_question_context_def Let_def
      join_Cons split: list.splits)

theorem ask_question_returns_witness:
  "ask_question (\<lambda>vector_db question k. take k vector_db)
       (\<lambda>prompt. [[''generated_text'' \<mapsto> prompt]])
       [\<lparr>page_content = ''alpha'', metadata = []\<rparr>, \<lparr>page_content = ''beta'', metadata = []\<rparr>]
       ''which?''
     = Inr (prompt_text (''alpha'' @ newline @ ''beta'') ''which?'',
            [\<lparr>page_content = ''alpha'', metadata = []\<rparr>, \<lparr>page_content = ''beta'', metadata = []\<rparr>])
   \<and> ask_question_context
         [\<lparr>page_content = ''alpha'', metadata = []\<rparr>, \<lparr>page_content = ''beta'', metadata = []\<rparr>]
       = ''alpha'' @ newline @ ''beta''"
  using ask_question_returns [of "\<lambda>prompt. [[''generated_text'' \<mapsto> prompt]]"
      "\<lambda>vector_db question k. take k vector_db"
      "[\<lparr>page_content = ''alpha'', metadata = []\<rparr>, \<lparr>page_content = ''beta'', metadata = []\<rparr>]"
      "''which?''" _ "[]" "prompt_text (''alpha'' @ newline @ ''beta'') ''which?''"]
  by simp

text \<open>
  Claim C2. For every vector index and every question, the retrieval step of
  \<open>ask_question\<close> (the search with \<open>k = 3\<close>) returns the chunks of \<open>min 3 n\<close> entries of the
  index, where \<open>n\<close> is the number of indexed chunks, ordered by non-increasing similarity
  of their embedding vectors to the embedding of the question.
\<close>

theorem retrieval_top_k:
  "\<exists>entries. ask_question_docs (similarity_search embedding similarity) vector_db question
        = map snd entries
     \<and> length entries = min 3 (length vector_db)
     \<and> mset entries \<subseteq># mset vector_db
     \<and> sorted_wrt (\<lambda>e e'. similarity (embedding question) (fst e)
                          \<ge> similarity (embedding question) (fst e')) entries"
proof -
  let ?key = "\<lambda>entry. - similarity (embedding question) (fst entry)"
  let ?es = "take 3 (sort_key ?key vector_db)"
  have "sorted (map ?key (sort_key ?key vector_db))" by (rule sorted_sort_key)
  then have "sorted (take 3 (map ?key (sort_key ?key vector_db)))" by (rule sorted_wrt_take)
  then have "sorted (map ?key ?es)" by (simp only: take_map)
  then have s: "sorted_wrt (\<lambda>e e'. similarity (embedding question) (fst e)
                          \<ge> similarity (embedding question) (fst e')) ?es"
    by (simp add: sorted_map)
  have m: "mset ?es \<subseteq># mset vector_db"
    using mset_take_subset [of 3 "sort_key ?key vector_db"] by simp
  have "length ?es = min 3 (length vector_db)" by simp
  with s m show ?thesis
    unfolding ask_question_docs_def similarity_search_def by blast
qed

theorem retrieval_top_k_witness:
  "\<exists>entries :: (nat \<times> document) list. ask_question_docs (similarity_search length (\<lambda>a b. - \<bar>real a - real b\<bar>))
        (create_vector_store length
           [\<lparr>page_content = ''aaaa'', metadata = []\<rparr>, \<lparr>page_content = ''a'', metadata = []\<rparr>])
        ''aa'' = map snd entries
     \<and> length entries = 2
     \<and> map snd entries
         = [\<lparr>page_content = ''a'', metadata = []\<rparr>, \<lparr>page_content = ''aaaa'', metadata = []\<rparr>]"
proof -
  let ?db = "create_vector_store length
           [\<lparr>page_content = ''aaaa'', metadata = []\<rparr>, \<lparr>page_content = ''a'', metadata = []\<rparr>]"
  obtain entries :: "(nat \<times> document) list"
    where e: "ask_question_docs (similarity_search length (\<lambda>a b. - \<bar>real a - real b\<bar>))
        ?db ''aa'' = map snd entries" "length entries = min 3 (length ?db)"
    using retrieval_top_k [of length "\<lambda>a b. - \<bar>real a - real b\<bar>" ?db "''aa''"] by blast
  have d: "ask_question_docs (similarity_search length (\<lambda>a b. - \<bar>real a - real b\<bar>)) ?db ''aa''
      = [\<lparr>page_content = ''a'', metadata = []\<rparr>, \<lparr>page_content = ''aaaa'', metadata = []\<rparr>]"
    by (simp add: ask_question_docs_def similarity_search_def create_vector_store_def)
  from e(2) have l: "length entries = 2"
    by (simp add: create_vector_store_def)
  from e(1) d have r: "map snd entries
      = [\<lparr>page_content = ''a'', metadata = []\<rparr>, \<lparr>page_content = ''aaaa'', metadata = []\<rparr>]"
    by simp
  show ?thesis
  proof (intro exI conjI)
    show "ask_question_docs (similarity_search length (\<lambda>a b. - \<bar>real a - real b\<bar>)) ?db ''aa''
        = map snd entries"
      by (rule e(1))
    show "length entries = 2" by (rule l)
    show "map snd entries
        = [\<lparr>page_content = ''a'', metadata = []\<rparr>, \<lparr>page_content = ''aaaa'', metadata = []\<rparr>]"
      by (rule r)
  qed
qed

end
